theory Spec2Isabelle
  imports Main "HOL-Library.Word" "HOL-Library.AList"
begin

section \<open>Cursor positions (pkg/cursor/cursor.go)\<close>

subsection \<open>Data model\<close>

type_synonym uint64 = "64 word"
type_synonym uint32 = "32 word"
type_synonym TagLine = string

text \<open>\<^verbatim>\<open>journal.Pos\<close>: the address of a record within a journal, a chunk id and
  an index within the chunk.\<close>

record Pos =
  CId :: uint64
  Idx :: uint32

text \<open>\<^verbatim>\<open>cursor.State\<close>. The field \<^verbatim>\<open>Id\<close> is written \<open>Id'\<close>, since \<open>Id\<close> is
  the identity relation of HOL.\<close>

record State =
  Id' :: uint64
  Sources :: string
  Where :: string
  Pos :: string

text \<open>An error value. Every \<^verbatim>\<open>errors.Errorf\<close> of cursor.go is a constructor of its
  own, \<^verbatim>\<open>errors.Wrapf(err, ...)\<close> is \<open>Wrapf err\<close>, and an error that a collaborator
  (lql, tindex, journal) hands back is \<open>External\<close> with its message.
  \<open>ErrWrongState\<close> is \<^verbatim>\<open>util.ErrWrongState\<close> and \<open>ErrCanceled\<close> the error of a cancelled
  context, which the file-descriptor pool returns.\<close>

datatype error =
    External string
  | ErrNoSources
  | ErrTooManySources
  | ErrStateMismatch
  | ErrParse
  | Wrapf error
  | ErrWrongState
  | ErrCanceled

text \<open>Modelled from the spec: \<^verbatim>\<open>journal.Iterator\<close>, which lives in the imported
  journal package. Of the journal iterator of section 4.2 the cursor code uses the logical
  position (\<^verbatim>\<open>Pos()\<close>, \<^verbatim>\<open>SetPos(p)\<close>) and \<^verbatim>\<open>Release()\<close>, which "relinquishes the
  underlying FReader back to FDP without destroying the iterator's logical position".
  \<open>rdr\<close> tells whether the iterator holds a file reader.\<close>

record Iterator =
  ipos :: Pos
  rdr :: bool

definition SetPos :: "Iterator \<Rightarrow> Pos \<Rightarrow> Iterator" where
  "SetPos i p = i\<lparr>ipos := p\<rparr>"

definition Release :: "Iterator \<Rightarrow> Iterator" where
  "Release i = i\<lparr>rdr := False\<rparr>"

text \<open>\<^verbatim>\<open>jrnlDesc\<close>. The journal handle \<open>jrnl\<close> is kept as the journal's name; \<open>jit\<close>
  is the state of the journal iterator the descriptor points to. The fields carry the names
  the source gives them where it builds the descriptor: \<^verbatim>\<open>&jrnlDesc{tags, jrnl, jit}\<close>.\<close>

type_synonym Journal = string

record jrnlDesc =
  tags :: TagLine
  jrnl :: Journal
  jit :: Iterator

text \<open>\<^verbatim>\<open>model.Iterator\<close> as the cursor builds it: a \<^verbatim>\<open>LogEventIterator\<close> wrapping the
  iterator of one journal with its tag line (the journal is named by its id, which stands for
  the pointer to the iterator kept in \<^verbatim>\<open>jDescs\<close>), or a \<^verbatim>\<open>Mixer\<close> of two iterators
  initialised with \<^verbatim>\<open>model.GetEarliest\<close>. Naming an iterator by its journal relies on the
  tag index giving different journals to different tag lines (a journal belongs to one tag
  line), so that every iterator the cursor creates is the one \<^verbatim>\<open>jDescs\<close> keeps for its
  journal.\<close>

datatype MIterator =
    Wrap TagLine string
  | Mixer MIterator MIterator

text \<open>\<^verbatim>\<open>Cursor\<close>. The Go map \<^verbatim>\<open>jDescs\<close> is an association list: its order is the
  order in which \<^verbatim>\<open>range\<close> visits the map, which Go leaves unspecified; its keys are
  distinct.\<close>

record Cursor =
  state :: State
  it :: MIterator
  jDescs :: "(string \<times> jrnlDesc) list"

text \<open>The collaborators the cursor code calls and that are not part of this repository's
  sources: \<^verbatim>\<open>lql.ParseExpr\<close>, \<^verbatim>\<open>tindex.Service.GetJournals\<close> (with its limit; the
  result map from tag line to journal id is an association list),
  \<^verbatim>\<open>journal.Controller.GetOrCreate\<close>, \<^verbatim>\<open>Journal.Iterator\<close>, \<^verbatim>\<open>journal.ParsePos\<close>,
  \<^verbatim>\<open>journal.Pos.String\<close>, Go's \<^verbatim>\<open>strings.ToLower\<close>, and the effect of
  \<^verbatim>\<open>model.Iterator.Get\<close> on the journal iterators below it.\<close>

record 'e env =
  ParseExpr :: "string \<Rightarrow> error + 'e"
  GetJournals :: "'e \<Rightarrow> nat \<Rightarrow> error + (TagLine \<times> string) list"
  GetOrCreate :: "string \<Rightarrow> error + Journal"
  NewIterator :: "Journal \<Rightarrow> Iterator"
  ParsePos :: "string \<Rightarrow> error + Pos"
  PosString :: "Pos \<Rightarrow> string"
  ToLower :: "string \<Rightarrow> string"
  ItGet :: "MIterator \<Rightarrow> (string \<times> jrnlDesc) list \<Rightarrow> (string \<times> jrnlDesc) list"

subsection \<open>Position strings\<close>

definition cMaxSources :: nat where
  "cMaxSources = 50"

definition cPosJrnlSplit :: char where
  "cPosJrnlSplit = CHR '':''"

definition cPosJrnlVal :: char where
  "cPosJrnlVal = CHR ''=''"

text \<open>Go's \<^verbatim>\<open>strings.Split(s, sep)\<close> for a separator of one byte: the pieces of \<open>s\<close>
  between the occurrences of \<open>sep\<close>, one more piece than there are occurrences. The scan
  keeps the piece read so far in \<open>piece\<close>.\<close>

fun splitFrom :: "string \<Rightarrow> char \<Rightarrow> string \<Rightarrow> string list" where
  "splitFrom [] sep piece = [piece]"
| "splitFrom (c # s) sep piece =
     (if c = sep then piece # splitFrom s sep [] else splitFrom s sep (piece @ [c]))"

definition Split :: "string \<Rightarrow> char \<Rightarrow> string list" where
  "Split s sep = splitFrom s sep []"

text \<open>The loop of \<^verbatim>\<open>collectPos\<close> over \<^verbatim>\<open>jDescs\<close>: \<open>first\<close> and \<open>buf\<close> are the local
  variables of the source; every iterator is released after its position is written.\<close>

fun collectPosLoop ::
  "'e env \<Rightarrow> (string \<times> jrnlDesc) list \<Rightarrow> bool \<Rightarrow> string \<Rightarrow> (string \<times> jrnlDesc) list \<times> string" where
  "collectPosLoop E [] first buf = ([], buf)"
| "collectPosLoop E ((jn, jd) # rest) first buf =
     (case collectPosLoop E rest False
             ((if \<not> first then buf @ [cPosJrnlSplit] else buf)
                @ jn @ [cPosJrnlVal] @ PosString E (ipos (jit jd))) of
        (jds, out) \<Rightarrow> ((jn, jd\<lparr>jit := Release (jit jd)\<rparr>) # jds, out))"

definition collectPos :: "'e env \<Rightarrow> Cursor \<Rightarrow> string \<times> Cursor" where
  "collectPos E cur =
     (case collectPosLoop E (jDescs cur) True [] of
        (jds, out) \<Rightarrow> (out, cur\<lparr>jDescs := jds\<rparr>))"

text \<open>\<^verbatim>\<open>Cursor.Get\<close> delegates to \<^verbatim>\<open>cur.it.Get\<close>; the cursor keeps what that call does to
  the journal iterators.\<close>

definition Get :: "'e env \<Rightarrow> Cursor \<Rightarrow> Cursor" where
  "Get E cur = cur\<lparr>jDescs := ItGet E (it cur) (jDescs cur)\<rparr>"

definition commit :: "'e env \<Rightarrow> Cursor \<Rightarrow> State \<times> Cursor" where
  "commit E cur =
     (case collectPos E (Get E cur) of
        (pos, cur1) \<Rightarrow>
          (let cur2 = cur1\<lparr>state := (state cur1)\<lparr>Pos := pos\<rparr>\<rparr>
           in (state cur2, cur2)))"

text \<open>\<^verbatim>\<open>applyCornerPos\<close>: the loop sets every iterator to \<open>p\<close>.\<close>

definition tailPos :: Pos where
  "tailPos = \<lparr>CId = 0xFFFFFFFFFFFFFFFF, Idx = 0xFFFFFFFF\<rparr>"

definition headPos :: Pos where
  "headPos = \<lparr>CId = 0, Idx = 0\<rparr>"

definition setAll :: "Pos \<Rightarrow> (string \<times> jrnlDesc) list \<Rightarrow> (string \<times> jrnlDesc) list" where
  "setAll p jds = map (\<lambda>(jn, jd). (jn, jd\<lparr>jit := SetPos (jit jd) p\<rparr>)) jds"

definition applyCornerPos :: "'e env \<Rightarrow> Cursor \<Rightarrow> string \<Rightarrow> bool \<times> Cursor" where
  "applyCornerPos E cur pstr =
     (let ps = ToLower E pstr in
      if ps = ''tail'' then (True, cur\<lparr>jDescs := setAll tailPos (jDescs cur)\<rparr>)
      else if ps \<noteq> ''head'' \<and> ps \<noteq> '''' then (False, cur)
      else (True, cur\<lparr>jDescs := setAll headPos (jDescs cur)\<rparr>))"

text \<open>\<^verbatim>\<open>applyStatePos\<close>. The first loop fills the map \<open>m\<close> (an association list with
  distinct keys, a later entry for a journal replacing an earlier one) and returns at the
  first entry that does not parse; the second loop visits \<open>m\<close> and seeks the iterators of
  the journals the cursor knows.\<close>

fun parseVals :: "'e env \<Rightarrow> string list \<Rightarrow> (string \<times> Pos) list \<Rightarrow> error + (string \<times> Pos) list" where
  "parseVals E [] m = Inr m"
| "parseVals E (v # vals) m =
     (let kv = Split v cPosJrnlVal in
      if length kv \<noteq> 2 then Inl ErrParse
      else (case ParsePos E (kv ! 1) of
              Inl err \<Rightarrow> Inl (Wrapf err)
            | Inr pos \<Rightarrow> parseVals E vals (AList.update (kv ! 0) pos m)))"

fun seekAll :: "(string \<times> Pos) list \<Rightarrow> (string \<times> jrnlDesc) list \<Rightarrow> (string \<times> jrnlDesc) list" where
  "seekAll [] jds = jds"
| "seekAll ((jn, pos) # m) jds =
     seekAll m (case map_of jds jn of
                  Some jd \<Rightarrow> AList.update jn (jd\<lparr>jit := SetPos (jit jd) pos\<rparr>) jds
                | None \<Rightarrow> jds)"

definition applyStatePos :: "'e env \<Rightarrow> Cursor \<Rightarrow> error + Cursor" where
  "applyStatePos E cur =
     (case parseVals E (Split (Pos (state cur)) cPosJrnlSplit) [] of
        Inl err \<Rightarrow> Inl err
      | Inr m \<Rightarrow> Inr (cur\<lparr>jDescs := seekAll m (jDescs cur)\<rparr>))"

definition applyPos :: "'e env \<Rightarrow> Cursor \<Rightarrow> error + Cursor" where
  "applyPos E cur =
     (case applyCornerPos E cur (Pos (state cur)) of
        (corner, cur1) \<Rightarrow> if \<not> corner then applyStatePos E cur else Inr cur1)"

text \<open>\<^verbatim>\<open>ApplyState\<close> returns the error, if any, and the cursor as the call leaves it.\<close>

definition ApplyState :: "'e env \<Rightarrow> Cursor \<Rightarrow> State \<Rightarrow> error option \<times> Cursor" where
  "ApplyState E cur st =
     (if Where (state cur) \<noteq> Where st \<or> Sources (state cur) \<noteq> Sources st
         \<or> Id' (state cur) \<noteq> Id' st
      then (Some ErrStateMismatch, cur)
      else if Pos (state cur) \<noteq> Pos st then
        (let oldPos = Pos (state cur);
             cur1 = cur\<lparr>state := (state cur)\<lparr>Pos := Pos st\<rparr>\<rparr>
         in case applyStatePos E cur1 of
              Inl err \<Rightarrow> (Some (Wrapf err), cur1\<lparr>state := (state cur1)\<lparr>Pos := oldPos\<rparr>\<rparr>)
            | Inr cur2 \<Rightarrow> (None, cur2))
      else (None, cur))"

subsection \<open>Building a cursor\<close>

text \<open>The loop of \<^verbatim>\<open>newCursor\<close> over the sources \<^verbatim>\<open>srcs\<close> (both branches of the source
  run it): the journal is obtained from the controller, a new iterator is taken from it and
  recorded in \<^verbatim>\<open>jd[src]\<close>, and the iterator wrapped with its tag line is appended to
  \<^verbatim>\<open>mxs\<close>. An error of \<^verbatim>\<open>GetOrCreate\<close> ends the construction.\<close>

fun openJournals ::
  "'e env \<Rightarrow> (TagLine \<times> string) list \<Rightarrow> (string \<times> jrnlDesc) list \<Rightarrow> MIterator list
     \<Rightarrow> error + ((string \<times> jrnlDesc) list \<times> MIterator list)" where
  "openJournals E [] jd mxs = Inr (jd, mxs)"
| "openJournals E ((tg, src) # srcs) jd mxs =
     (case GetOrCreate E src of
        Inl err \<Rightarrow> Inl (Wrapf err)
      | Inr jr \<Rightarrow>
          openJournals E srcs
            (AList.update src \<lparr>tags = tg, jrnl = jr, jit = NewIterator E jr\<rparr> jd)
            (mxs @ [Wrap tg src]))"

text \<open>The inner loop \<^verbatim>\<open>for i := 0; i < len(mxs)-1; i += 2\<close>, which writes the mixer of
  \<^verbatim>\<open>mxs[i]\<close> and \<^verbatim>\<open>mxs[i+1]\<close> to \<^verbatim>\<open>mxs[i/2]\<close> in place.\<close>

function pairUp :: "nat \<Rightarrow> MIterator list \<Rightarrow> MIterator list" where
  "pairUp i mxs =
     (if i + 1 < length mxs
      then pairUp (i + 2) (mxs[i div 2 := Mixer (mxs ! i) (mxs ! (i + 1))])
      else mxs)"
  by pat_completeness auto
termination
  by (relation "measure (\<lambda>(i, mxs). length mxs - i)") auto

declare pairUp.simps [simp del]

text \<open>One round of the outer loop: after the pairs, an odd last element is moved up to
  \<^verbatim>\<open>mxs[len(mxs)/2]\<close> and the slice is cut.\<close>

definition mixStep :: "MIterator list \<Rightarrow> MIterator list" where
  "mixStep mxs =
     (let m1 = pairUp 0 mxs; n = length m1 in
      if n mod 2 = 1 then take (n div 2 + 1) (m1[n div 2 := m1 ! (n - 1)])
      else take (n div 2) m1)"

function mixAll :: "MIterator list \<Rightarrow> MIterator list" where
  "mixAll mxs = (if length mxs > 1 then mixAll (mixStep mxs) else mxs)"
  by pat_completeness auto
termination
proof (relation "measure length")
  show "wf (measure length)" by simp
next
  fix mxs :: "MIterator list"
  assume l: "1 < length mxs"
  have len: "length (pairUp i xs) = length xs" for i xs
  proof (induction i xs rule: pairUp.induct)
    case (1 i xs)
    show ?case
    proof (cases "i + 1 < length xs")
      case True
      then show ?thesis
        using "1.IH" by (subst pairUp.simps) simp
    next
      case False
      then show ?thesis
        by (subst pairUp.simps) simp
    qed
  qed
  have odd: "n div 2 + 1 < n" if "n mod 2 = 1" and "1 < n" for n :: nat
    using that by presburger
  have "length (mixStep mxs) < length mxs"
    using l odd [of "length mxs"] by (auto simp: mixStep_def Let_def len)
  then show "(mixStep mxs, mxs) \<in> measure length" by simp
qed

text \<open>\<^verbatim>\<open>newCursor\<close>. \<^verbatim>\<open>GetJournals\<close> is asked for at most \<^verbatim>\<open>cMaxSources+1\<close> journals.\<close>

definition newCursor :: "'e env \<Rightarrow> State \<Rightarrow> error + Cursor" where
  "newCursor E st =
     (case ParseExpr E (Sources st) of
        Inl err \<Rightarrow> Inl (Wrapf err)
      | Inr se \<Rightarrow>
          (case GetJournals E se (cMaxSources + 1) of
             Inl err \<Rightarrow> Inl (Wrapf err)
           | Inr srcs \<Rightarrow>
               if length srcs = 0 then Inl ErrNoSources
               else if length srcs > cMaxSources then Inl ErrTooManySources
               else (case openJournals E srcs [] [] of
                       Inl err \<Rightarrow> Inl err
                     | Inr (jd, mxs) \<Rightarrow>
                         (case applyPos E
                                 \<lparr>state = st,
                                  it = (if length srcs = 1 then mxs ! 0 else mixAll mxs ! 0),
                                  jDescs = jd\<rparr> of
                            Inl err \<Rightarrow> Inl (Wrapf err)
                          | Inr cur \<Rightarrow> Inr cur))))"

subsection \<open>The position string as the specification describes it\<close>

text \<open>Section 6 of the specification: \<^verbatim>\<open>Pos := Entry ( ":" Entry )*\<close> with
  \<^verbatim>\<open>Entry := JournalId "=" JournalPos\<close>. \<open>posEntry\<close> is the entry of one journal descriptor,
  \<open>joinPos\<close> joins entries with the separator. They are compared with what
  \<^verbatim>\<open>collectPos\<close> writes.\<close>

definition posEntry :: "'e env \<Rightarrow> string \<times> jrnlDesc \<Rightarrow> string" where
  "posEntry E e = fst e @ [cPosJrnlVal] @ PosString E (ipos (jit (snd e)))"

fun joinPos :: "string list \<Rightarrow> string" where
  "joinPos [] = []"
| "joinPos [e] = e"
| "joinPos (e # es) = e @ [cPosJrnlSplit] @ joinPos es"


section \<open>The merged iterator\<close>















section \<open>The file-descriptor pool (package chunkfs)\<close>

subsection \<open>File readers\<close>

text \<open>Modelled from the spec: the type \<^verbatim>\<open>fReader\<close> and its methods \<^verbatim>\<open>isFree\<close>,
  \<^verbatim>\<open>distance\<close>, \<^verbatim>\<open>makeBusy\<close>, \<^verbatim>\<open>makeFree\<close> and \<^verbatim>\<open>Close\<close>, which live in a file of
  package chunkfs that is not among the sources. Section 3: an \<^verbatim>\<open>FReader\<close> has a file name,
  a buffered read offset and a state in {free, busy, closing, closed}. \<open>rid\<close> stands for
  the identity of the object (the pointer the pool and its clients share).\<close>

datatype frState = frFree | frBusy | frClosing | frClosed

record fReader =
  rid :: nat
  rname :: string
  fpos :: "64 word"
  plState :: frState

definition isFree :: "fReader \<Rightarrow> bool" where
  "isFree fr \<longleftrightarrow> plState fr = frFree"

text \<open>Section 9: "Distance is computed in unsigned arithmetic on file offsets; when a
  reader's current offset is far past offset, the distance wraps": the difference of the
  int64 offsets read as a uint64.\<close>

definition distance :: "fReader \<Rightarrow> 64 word \<Rightarrow> 64 word" where
  "distance fr offset = offset - fpos fr"

definition makeBusy :: "fReader \<Rightarrow> fReader" where
  "makeBusy fr = fr\<lparr>plState := frBusy\<rparr>"



subsection \<open>The readers of one file: frPool\<close>

record frPool =
  fname :: string
  rdrs :: "fReader list"


text \<open>The loop of \<^verbatim>\<open>getFree\<close>: \<open>idx\<close> is the index of the reader at the head of the list,
  \<open>ridx\<close> (an int, \<open>-1\<close> at the start) and \<open>dist\<close> (a uint64) are the variables of the
  source; \<open><\<close> on \<open>64 word\<close> is the unsigned comparison.\<close>

fun getFreeLoop :: "64 word \<Rightarrow> fReader list \<Rightarrow> nat \<Rightarrow> int \<Rightarrow> 64 word \<Rightarrow> int \<times> 64 word" where
  "getFreeLoop offset [] idx ridx dist = (ridx, dist)"
| "getFreeLoop offset (fr # rest) idx ridx dist =
     (if isFree fr then
        (if ridx < 0 then getFreeLoop offset rest (idx + 1) (int idx) (distance fr offset)
         else if distance fr offset < dist
              then getFreeLoop offset rest (idx + 1) (int idx) (distance fr offset)
              else getFreeLoop offset rest (idx + 1) ridx dist)
      else getFreeLoop offset rest (idx + 1) ridx dist)"

text \<open>\<^verbatim>\<open>getFree\<close> returns the reader chosen, made busy, or nothing; the pool holds the busy
  reader afterwards.\<close>

definition getFree :: "frPool \<Rightarrow> 64 word \<Rightarrow> fReader option \<times> frPool" where
  "getFree frp offset =
     (case getFreeLoop offset (rdrs frp) 0 (- 1) (- 1) of
        (ridx, dist) \<Rightarrow>
          if ridx < 0 then (None, frp)
          else (Some (makeBusy (rdrs frp ! nat ridx)),
                frp\<lparr>rdrs := (rdrs frp)[nat ridx := makeBusy (rdrs frp ! nat ridx)]\<rparr>))"

text \<open>The loop of \<^verbatim>\<open>cleanUp\<close>: a reader that is removed is overwritten by the last one and
  the slice is cut by one; \<open>i\<close> then stays (the source decrements it before the loop
  increments it). The readers removed are closed; \<open>cnt\<close> counts them.\<close>

function cleanUpLoop :: "bool \<Rightarrow> nat \<Rightarrow> fReader list \<Rightarrow> nat \<Rightarrow> fReader list \<times> nat" where
  "cleanUpLoop all i rs cnt =
     (if i < length rs then
        (if \<not> all \<and> \<not> isFree (rs ! i) then cleanUpLoop all (i + 1) rs cnt
         else cleanUpLoop all i (butlast (rs[i := rs ! (length rs - 1)])) (cnt + 1))
      else (rs, cnt))"
  by pat_completeness auto
termination
  by (relation "measure (\<lambda>(all, i, rs, cnt). 2 * length rs - i)") auto

declare cleanUpLoop.simps [simp del]

definition cleanUp :: "frPool \<Rightarrow> bool \<Rightarrow> frPool \<times> nat" where
  "cleanUp frp all =
     (case cleanUpLoop all 0 (rdrs frp) 0 of (rs, cnt) \<Rightarrow> (frp\<lparr>rdrs := rs\<rparr>, cnt))"

definition isEmpty :: "frPool \<Rightarrow> bool" where
  "isEmpty frp \<longleftrightarrow> length (rdrs frp) = 0"

subsection \<open>FdPool\<close>

text \<open>\<^verbatim>\<open>FdPool\<close>. \<open>maxSize\<close> and \<open>curSize\<close> are int32; \<open>sem\<close> is the number of permits in
  the buffered channel \<^verbatim>\<open>sem\<close>; the Go map \<^verbatim>\<open>frs\<close> from client id to pool is an association
  list with distinct keys; \<open>closed\<close> is the flag \<^verbatim>\<open>closed\<close> (0 or 1), which is also when
  \<^verbatim>\<open>Close\<close> has closed the channels. The mutex is not modelled: every operation below is
  one critical section of the source. Two fields stand for what the source keeps
  elsewhere: \<open>waiters\<close>, the calls of \<^verbatim>\<open>acquire\<close> that have left the critical section and
  wait in \<^verbatim>\<open>select\<close> (with the client id and the file name they go on with), and
  \<open>nextRid\<close>, the identity of the next reader \<^verbatim>\<open>newFReader\<close> creates.\<close>

type_synonym cid = "64 word"

record FdPool =
  maxSize :: int
  curSize :: int
  sem :: nat
  frs :: "(cid \<times> frPool) list"
  closed :: bool
  waiters :: "(cid \<times> string) list"
  nextRid :: nat

text \<open>The conversion \<^verbatim>\<open>int32(x)\<close>, and the int32 additions of the source.\<close>

definition int32 :: "int \<Rightarrow> int" where
  "int32 x = sint (word_of_int x :: 32 word)"

text \<open>\<^verbatim>\<open>freeSem\<close> sends \<open>cnt\<close> permits unless the pool is closed. (A send blocks when the
  channel is full; by the invariant \<open>fdInv\<close> below the permits never exceed its capacity.)\<close>

definition freeSem :: "FdPool \<Rightarrow> nat \<Rightarrow> FdPool" where
  "freeSem fdp cnt = (if closed fdp then fdp else fdp\<lparr>sem := sem fdp + cnt\<rparr>)"



text \<open>The loop of \<^verbatim>\<open>clean\<close> over the pools of \<^verbatim>\<open>frs\<close>; the list \<open>todo\<close> holds the entries
  still to visit.\<close>

definition putPool :: "cid \<Rightarrow> frPool \<Rightarrow> (cid \<times> frPool) list \<Rightarrow> (cid \<times> frPool) list" where
  "putPool c frp ps = map (\<lambda>e. if fst e = c then (c, frp) else e) ps"

definition delPool :: "cid \<Rightarrow> (cid \<times> frPool) list \<Rightarrow> (cid \<times> frPool) list" where
  "delPool c ps = filter (\<lambda>e. fst e \<noteq> c) ps"

fun cleanLoop :: "bool \<Rightarrow> (cid \<times> frPool) list \<Rightarrow> FdPool \<Rightarrow> FdPool" where
  "cleanLoop all [] fdp = fdp"
| "cleanLoop all ((nm, frp) # todo) fdp =
     (case cleanUp frp all of
        (frp', cnt) \<Rightarrow>
          cleanLoop all todo
            ((freeSem (fdp\<lparr>curSize := int32 (curSize fdp - int32 (int cnt))\<rparr>) cnt)
               \<lparr>frs := (if all then delPool nm (frs fdp) else putPool nm frp' (frs fdp))\<rparr>))"

definition clean :: "FdPool \<Rightarrow> bool \<Rightarrow> FdPool" where
  "clean fdp all = cleanLoop all (frs fdp) fdp"

text \<open>\<^verbatim>\<open>createAndUseFreader\<close>. \<open>openOk\<close> tells whether \<^verbatim>\<open>newFReader\<close> opens the file.\<close>

definition createAndUseFreader :: "FdPool \<Rightarrow> bool \<Rightarrow> cid \<Rightarrow> string \<Rightarrow> (error + fReader) \<times> FdPool" where
  "createAndUseFreader fdp openOk c fn =
     (if \<not> openOk then (Inl (External ''open failed''), fdp)
      else
        (let fr = \<lparr>rid = nextRid fdp, rname = fn, fpos = 0, plState = frFree\<rparr>;
             fdp1 = fdp\<lparr>nextRid := nextRid fdp + 1\<rparr>
         in case map_of (frs fdp1) c of
              None \<Rightarrow> (Inl ErrWrongState, fdp1)
            | Some frp \<Rightarrow>
                (Inr (makeBusy fr),
                 fdp1\<lparr>frs := putPool c (frp\<lparr>rdrs := rdrs frp @ [makeBusy fr]\<rparr>) (frs fdp1)\<rparr>)))"

text \<open>What a call of \<^verbatim>\<open>acquire\<close> comes to: a reader, an error, or it waits in
  \<^verbatim>\<open>select\<close>.\<close>

datatype acquired = Reader fReader | Failed error | Waiting

text \<open>\<^verbatim>\<open>acquire\<close>, the critical section: a free reader of the pool is handed out; else
  \<open>curSize\<close> is incremented, the pools are cleaned when it reaches \<open>maxSize\<close>, and the call
  goes on to \<^verbatim>\<open>select\<close> with the file name of the pool.\<close>

definition acquireLocked :: "FdPool \<Rightarrow> cid \<Rightarrow> 64 word \<Rightarrow> acquired \<times> FdPool" where
  "acquireLocked fdp c offset =
     (if closed fdp then (Failed ErrWrongState, fdp)
      else case map_of (frs fdp) c of
             None \<Rightarrow> (Failed ErrWrongState, fdp)
           | Some frp \<Rightarrow>
               (case getFree frp offset of
                  (Some fr, frp') \<Rightarrow> (Reader fr, fdp\<lparr>frs := putPool c frp' (frs fdp)\<rparr>)
                | (None, _) \<Rightarrow>
                    (let fdp1 = fdp\<lparr>curSize := int32 (curSize fdp + 1)\<rparr>;
                         fdp2 = (if curSize fdp1 \<ge> maxSize fdp1 then clean fdp1 False else fdp1)
                     in (Waiting, fdp2\<lparr>waiters := waiters fdp2 @ [(c, fname frp)]\<rparr>))))"

text \<open>\<^verbatim>\<open>acquire\<close>, the \<^verbatim>\<open>select\<close> of the waiting call number \<open>i\<close>. With \<open>ctxDone\<close> the
  context is cancelled and that case is taken. Otherwise a permit is received when the
  channel holds one (also from a closed channel, which hands out what it has buffered):
  the call goes on to \<^verbatim>\<open>createAndUseFreader\<close>; a closed and empty channel gives
  \<^verbatim>\<open>ErrWrongState\<close>; an open and empty channel leaves the call waiting.\<close>

definition removeAt :: "nat \<Rightarrow> 'a list \<Rightarrow> 'a list" where
  "removeAt i xs = take i xs @ drop (i + 1) xs"

definition acquireSelect :: "FdPool \<Rightarrow> nat \<Rightarrow> bool \<Rightarrow> bool \<Rightarrow> acquired \<times> FdPool" where
  "acquireSelect fdp i ctxDone openOk =
     (if i \<ge> length (waiters fdp) then (Waiting, fdp)
      else
        (let w = waiters fdp ! i;
             fdp1 = fdp\<lparr>waiters := removeAt i (waiters fdp)\<rparr>
         in if ctxDone then (Failed ErrCanceled, fdp1\<lparr>curSize := int32 (curSize fdp1 - 1)\<rparr>)
            else if sem fdp > 0 then
              (case createAndUseFreader (fdp1\<lparr>sem := sem fdp1 - 1\<rparr>) openOk (fst w) (snd w) of
                 (Inl err, fdp2) \<Rightarrow> (Failed err, fdp2)
               | (Inr fr, fdp2) \<Rightarrow> (Reader fr, fdp2))
            else if closed fdp then
              (Failed ErrWrongState, fdp1\<lparr>curSize := int32 (curSize fdp1 - 1)\<rparr>)
            else (Waiting, fdp)))"

text \<open>A whole call of \<^verbatim>\<open>acquire\<close> that nothing interleaves with: the critical section and,
  if the call has to go on, its \<^verbatim>\<open>select\<close> at once.\<close>

definition acquire :: "FdPool \<Rightarrow> bool \<Rightarrow> bool \<Rightarrow> cid \<Rightarrow> 64 word \<Rightarrow> acquired \<times> FdPool" where
  "acquire fdp ctxDone openOk c offset =
     (case acquireLocked fdp c offset of
        (Waiting, fdp1) \<Rightarrow> acquireSelect fdp1 (length (waiters fdp1) - 1) ctxDone openOk
      | (res, fdp1) \<Rightarrow> (res, fdp1))"

text \<open>\<^verbatim>\<open>release\<close> of the reader with the identity \<open>r\<close>. A reader that is in no pool has
  been removed and closed by \<^verbatim>\<open>cleanUp\<close>: \<^verbatim>\<open>makeFree\<close> fails on it and closing it again
  changes nothing in the pool.\<close>

definition mapReader :: "nat \<Rightarrow> (fReader \<Rightarrow> fReader) \<Rightarrow> (cid \<times> frPool) list \<Rightarrow> (cid \<times> frPool) list" where
  "mapReader r f ps =
     map (\<lambda>e. (fst e, (snd e)\<lparr>rdrs := map (\<lambda>fr. if rid fr = r then f fr else fr) (rdrs (snd e))\<rparr>)) ps"












text \<open>Section 4.1, reader selection: the reader at index \<open>i\<close> is free, no free reader is
  nearer to \<open>offset\<close>, and every free reader before it is farther.\<close>

definition nearestFree :: "64 word \<Rightarrow> fReader list \<Rightarrow> nat \<Rightarrow> bool" where
  "nearestFree offset rs i \<longleftrightarrow>
     i < length rs \<and> isFree (rs ! i) \<and>
     (\<forall>j < length rs. isFree (rs ! j) \<longrightarrow> distance (rs ! i) offset \<le> distance (rs ! j) offset) \<and>
     (\<forall>j < i. isFree (rs ! j) \<longrightarrow> distance (rs ! i) offset < distance (rs ! j) offset)"


section \<open>A reference environment\<close>

text \<open>Modelled from the spec: \<^verbatim>\<open>journal.Pos.String\<close> and \<^verbatim>\<open>journal.ParsePos\<close> of the
  imported journal package, after the grammar of section 6,
  \<^verbatim>\<open>JournalPos := hex(ChunkId) "." hex(Idx)\<close>, with 16 and 8 upper-case digits as in the
  tail sentinel \<^verbatim>\<open>FFFFFFFFFFFFFFFF.FFFFFFFF\<close>. The theorems below hold for every
  environment that meets their hypotheses; this one instantiates them.\<close>

definition hexDigits :: string where
  "hexDigits = ''0123456789ABCDEF''"

primrec hex :: "nat \<Rightarrow> nat \<Rightarrow> string" where
  "hex 0 v = []"
| "hex (Suc n) v = hex n (v div 16) @ [hexDigits ! (v mod 16)]"

fun unhex :: "string \<Rightarrow> nat \<Rightarrow> nat option" where
  "unhex [] acc = Some acc"
| "unhex (c # cs) acc =
     (case map_of (zip hexDigits [0 ..< 16]) c of
        None \<Rightarrow> None
      | Some d \<Rightarrow> unhex cs (16 * acc + d))"

definition hexPosString :: "Pos \<Rightarrow> string" where
  "hexPosString p = hex 16 (unat (CId p)) @ ''.'' @ hex 8 (unat (Idx p))"

definition hexParsePos :: "string \<Rightarrow> error + Pos" where
  "hexParsePos s =
     (case Split s CHR ''.'' of
        [a, b] \<Rightarrow>
          (if length a = 16 \<and> length b = 8 then
             (case (unhex a 0, unhex b 0) of
                (Some x, Some y) \<Rightarrow> Inr \<lparr>CId = of_nat x, Idx = of_nat y\<rparr>
              | _ \<Rightarrow> Inl (External ''not a hexadecimal number''))
           else Inl (External ''wrong length''))
      | _ \<Rightarrow> Inl (External ''expecting <chunk>.<index>''))"

text \<open>Go's \<^verbatim>\<open>strings.ToLower\<close> on ASCII strings: the bytes \<open>A\<close> to \<open>Z\<close> are moved to
  \<open>a\<close> to \<open>z\<close>.\<close>

definition asciiLower :: "char \<Rightarrow> char" where
  "asciiLower c =
     (if 65 \<le> (of_char c :: nat) \<and> (of_char c :: nat) \<le> 90
      then char_of ((of_char c :: nat) + 32) else c)"

text \<open>The environment: the tag index answers with the first \<open>n\<close> of the sources \<open>srcs\<close>,
  every journal exists, a fresh iterator sits at the head and holds no reader, and a
  \<^verbatim>\<open>Get\<close> makes every journal iterator acquire a reader.\<close>

definition stdEnv :: "(TagLine \<times> string) list \<Rightarrow> string env" where
  "stdEnv srcs =
     \<lparr>ParseExpr = Inr,
      GetJournals = (\<lambda>e n. Inr (take n srcs)),
      GetOrCreate = Inr,
      NewIterator = (\<lambda>j. \<lparr>ipos = headPos, rdr = False\<rparr>),
      ParsePos = hexParsePos,
      PosString = hexPosString,
      ToLower = map asciiLower,
      ItGet = (\<lambda>t jds. map (\<lambda>(jn, jd). (jn, jd\<lparr>jit := (jit jd)\<lparr>rdr := True\<rparr>\<rparr>)) jds)\<rparr>"

text \<open>A cursor over one journal and a cursor over two.\<close>

definition mkDesc :: "TagLine \<Rightarrow> string \<Rightarrow> nat \<Rightarrow> nat \<Rightarrow> bool \<Rightarrow> string \<times> jrnlDesc" where
  "mkDesc tg jn c i r =
     (jn, \<lparr>tags = tg, jrnl = jn, jit = \<lparr>ipos = \<lparr>CId = of_nat c, Idx = of_nat i\<rparr>, rdr = r\<rparr>\<rparr>)"

definition curOne :: Cursor where
  "curOne =
     \<lparr>state = \<lparr>Id' = 1, Sources = ''name=a'', Where = '''',
               Pos = ''j1=0000000000000001.00000002''\<rparr>,
      it = Wrap ''name=a'' ''j1'',
      jDescs = [mkDesc ''name=a'' ''j1'' 9 9 True]\<rparr>"

definition curTwo :: Cursor where
  "curTwo =
     \<lparr>state = \<lparr>Id' = 2, Sources = ''name=a OR name=b'', Where = '''', Pos = ''head''\<rparr>,
      it = Mixer (Wrap ''name=a'' ''j1'') (Wrap ''name=b'' ''j2''),
      jDescs = [mkDesc ''name=a'' ''j1'' 1 2 True, mkDesc ''name=b'' ''j2'' 3 4 False]\<rparr>"


text \<open>Sixty sources with distinct tag lines and journals, for the cap on the sources.\<close>

definition manySources :: "(TagLine \<times> string) list" where
  "manySources = map (\<lambda>n. (''name=s'' @ hex 2 n, ''j'' @ hex 2 n)) [0 ..< 60]"








definition headState :: "string \<Rightarrow> State" where
  "headState srcs = \<lparr>Id' = 4, Sources = srcs, Where = '''', Pos = ''head''\<rparr>"


definition curTwoFresh :: Cursor where
  "curTwoFresh =
     \<lparr>state = headState ''name=a OR name=b'',
      it = Mixer (Wrap ''name=a'' ''j1'') (Wrap ''name=b'' ''j2''),
      jDescs = [mkDesc ''name=a'' ''j1'' 0 0 False, mkDesc ''name=b'' ''j2'' 0 0 False]\<rparr>"


text \<open>A pool of three permits with the file of client 7 registered and four readers on it:
  a busy one at offset 100, and free ones at the offsets 50, 90 and 90.\<close>

definition mkReader :: "nat \<Rightarrow> nat \<Rightarrow> frState \<Rightarrow> fReader" where
  "mkReader r p s = \<lparr>rid = r, rname = ''chunk7'', fpos = of_nat p, plState = s\<rparr>"

definition frpEx :: frPool where
  "frpEx = \<lparr>fname = ''chunk7'',
            rdrs = [mkReader 0 100 frBusy, mkReader 1 50 frFree, mkReader 2 90 frFree,
                    mkReader 3 90 frFree]\<rparr>"

definition fdpEx :: FdPool where
  "fdpEx = \<lparr>maxSize = 4, curSize = 4, sem = 0, frs = [(7, frpEx)], closed = False,
            waiters = [], nextRid = 4\<rparr>"


text \<open>A pool with three of four permits left and one busy reader on the file of client 7.\<close>

definition fdpBusy :: FdPool where
  "fdpBusy = \<lparr>maxSize = 4, curSize = 1, sem = 3,
              frs = [(7, \<lparr>fname = ''chunk7'', rdrs = [mkReader 0 100 frBusy]\<rparr>)],
              closed = False, waiters = [], nextRid = 1\<rparr>"



section \<open>Properties of the cursor\<close>

subsection \<open>Auxiliary facts\<close>

lemma splitFrom_nosep: "sep \<notin> set s \<Longrightarrow> splitFrom s sep piece = [piece @ s]"
  by (induction s arbitrary: piece) auto

lemma Split_nosep: "sep \<notin> set s \<Longrightarrow> Split s sep = [s]"
  by (simp add: Split_def splitFrom_nosep)



lemma seekAll_keys: "map fst (seekAll m jds) = map fst jds"
proof (induction m arbitrary: jds)
  case Nil
  then show ?case by simp
next
  case (Cons e m)
  obtain jn pos where e: "e = (jn, pos)" by (cases e)
  show ?case
  proof (cases "map_of jds jn")
    case None
    then show ?thesis using Cons e by simp
  next
    case (Some jd)
    then have "jn \<in> set (map fst jds)"
      by (metis map_of_eq_None_iff option.distinct(1) set_map)
    then show ?thesis using Cons e Some by (simp add: update_keys)
  qed
qed

lemma seekAll_map_of:
  "distinct (map fst m) \<Longrightarrow>
   map_of (seekAll m jds) jn =
     (case map_of jds jn of
        None \<Rightarrow> None
      | Some jd \<Rightarrow> Some (case map_of m jn of
                          None \<Rightarrow> jd
                        | Some p \<Rightarrow> jd\<lparr>jit := SetPos (jit jd) p\<rparr>))"
proof (induction m arbitrary: jds)
  case Nil
  then show ?case by (simp split: option.splits)
next
  case (Cons e m)
  obtain k pos where e: "e = (k, pos)" by (cases e)
  from Cons.prems e have dm: "distinct (map fst m)" and km: "map_of m k = None"
    by (auto simp: map_of_eq_None_iff)
  show ?case
    using Cons.IH [OF dm] e km
    by (auto simp: update_conv' split: option.splits)
qed

lemma parseVals_distinct:
  "parseVals E vals m0 = Inr m \<Longrightarrow> distinct (map fst m0) \<Longrightarrow> distinct (map fst m)"
proof (induction vals arbitrary: m0)
  case Nil
  then show ?case by simp
next
  case (Cons v vals)
  then show ?case
    by (auto simp: Let_def distinct_update split: if_splits sum.splits)
qed

lemma parseVals_keys:
  "parseVals E vals m0 = Inr m \<Longrightarrow>
   fst ` set m = fst ` set m0 \<union> (\<lambda>v. Split v cPosJrnlVal ! 0) ` set vals"
proof (induction vals arbitrary: m0)
  case Nil
  then show ?case by simp
next
  case (Cons v vals)
  then show ?case
    by (auto simp: Let_def dom_update split: if_splits sum.splits)
qed



lemma applyPos_tail:
  "ToLower E (Pos (state cur)) = ''tail'' \<Longrightarrow>
   applyPos E cur = Inr (cur\<lparr>jDescs := setAll tailPos (jDescs cur)\<rparr>)"
  by (simp add: applyPos_def applyCornerPos_def)

lemma applyPos_head:
  "ToLower E (Pos (state cur)) = ''head'' \<or> ToLower E (Pos (state cur)) = '''' \<Longrightarrow>
   applyPos E cur = Inr (cur\<lparr>jDescs := setAll headPos (jDescs cur)\<rparr>)"
  by (auto simp: applyPos_def applyCornerPos_def)


subsection \<open>Corner positions and ApplyState\<close>

text \<open>C10: for every cursor, \<^verbatim>\<open>ApplyState\<close> with a state that passes the guard and whose
  \<open>Pos\<close> is "head", "tail" or the empty string, and differs from the stored \<open>Pos\<close>, fails with
  the (wrapped) parse error and leaves the cursor as it was: the stored \<open>Pos\<close> and every
  journal iterator. The same value is accepted by \<^verbatim>\<open>applyPos\<close>, which construction uses
  (\<^verbatim>\<open>strings.ToLower\<close> leaves these lower-case values alone).\<close>

theorem ApplyState_corner_rejected:
  assumes "Pos st = ''head'' \<or> Pos st = ''tail'' \<or> Pos st = ''''"
    and "Pos st \<noteq> Pos (state cur)"
    and "Id' st = Id' (state cur)" and "Sources st = Sources (state cur)"
    and "Where st = Where (state cur)"
    and "ToLower E (Pos st) = Pos st"
  shows "ApplyState E cur st = (Some (Wrapf ErrParse), cur) \<and>
         (\<exists>c. applyPos E (cur\<lparr>state := st\<rparr>) = Inr c)"
proof -
  have nosep: "cPosJrnlSplit \<notin> set (Pos st)" "cPosJrnlVal \<notin> set (Pos st)"
    using assms(1) by (auto simp: cPosJrnlSplit_def cPosJrnlVal_def)
  have "parseVals E (Split (Pos st) cPosJrnlSplit) [] = Inl ErrParse"
    by (simp add: Split_nosep nosep)
  then have "applyStatePos E (cur\<lparr>state := (state cur)\<lparr>Pos := Pos st\<rparr>\<rparr>) = Inl ErrParse"
    by (simp add: applyStatePos_def)
  then have a: "ApplyState E cur st = (Some (Wrapf ErrParse), cur)"
    using assms(2-5) by (simp add: ApplyState_def)
  have "\<exists>c. applyPos E (cur\<lparr>state := st\<rparr>) = Inr c"
    using assms(1,6) applyPos_tail [of E "cur\<lparr>state := st\<rparr>"]
      applyPos_head [of E "cur\<lparr>state := st\<rparr>"]
    by auto
  with a show ?thesis by simp
qed

theorem ApplyState_corner_rejected_witness:
  "ApplyState (stdEnv []) curOne ((state curOne)\<lparr>Pos := ''tail''\<rparr>) = (Some (Wrapf ErrParse), curOne) \<and>
   (\<exists>c. applyPos (stdEnv []) (curOne\<lparr>state := (state curOne)\<lparr>Pos := ''tail''\<rparr>\<rparr>) = Inr c)"
proof -
  let ?E = "stdEnv [] :: string env"
  let ?st = "(state curOne)\<lparr>Pos := ''tail''\<rparr>"
  have d: "Pos ?st \<noteq> Pos (state curOne)"
    by (simp add: curOne_def)
  have l: "ToLower ?E (Pos ?st) = Pos ?st"
    by code_simp
  show ?thesis
    using ApplyState_corner_rejected [where st = ?st and cur = curOne and E = ?E, OF _ d _ _ _ l]
    by simp
qed



text \<open>C3 (as amended): \<^verbatim>\<open>ApplyState\<close> is guarded and transactional. It returns an error and
  leaves the cursor alone whenever \<open>Id\<close>, \<open>Sources\<close> or \<open>Where\<close> of the new state differ from
  the cursor's. Otherwise, when the new \<open>Pos\<close> equals the stored one, it does nothing; when it
  differs, the position string is parsed first: if it does not parse, the error is returned
  and the cursor is as before (the stored \<open>Pos\<close> is restored and no iterator has been
  repositioned); if it parses to the map \<open>m\<close>, the new state is stored and the iterator of
  every journal of the cursor that \<open>m\<close> names is set to the position \<open>m\<close> gives it, the other
  iterators staying where they are.\<close>

theorem ApplyState_guarded_transactional:
  "(Id' st \<noteq> Id' (state cur) \<or> Sources st \<noteq> Sources (state cur) \<or> Where st \<noteq> Where (state cur)
      \<longrightarrow> ApplyState E cur st = (Some ErrStateMismatch, cur)) \<and>
   (Id' st = Id' (state cur) \<and> Sources st = Sources (state cur) \<and> Where st = Where (state cur)
      \<longrightarrow>
      (Pos st = Pos (state cur) \<longrightarrow> ApplyState E cur st = (None, cur)) \<and>
      (Pos st \<noteq> Pos (state cur) \<longrightarrow>
         (case parseVals E (Split (Pos st) cPosJrnlSplit) [] of
            Inl err \<Rightarrow> ApplyState E cur st = (Some (Wrapf err), cur)
          | Inr m \<Rightarrow>
              (\<exists>cur'. ApplyState E cur st = (None, cur') \<and> state cur' = st \<and> it cur' = it cur \<and>
                 map fst (jDescs cur') = map fst (jDescs cur) \<and>
                 (\<forall>jn jd. map_of (jDescs cur) jn = Some jd \<longrightarrow>
                    map_of (jDescs cur') jn =
                      Some (case map_of m jn of
                              None \<Rightarrow> jd
                            | Some p \<Rightarrow> jd\<lparr>jit := SetPos (jit jd) p\<rparr>))))))"
proof (intro conjI impI)
  assume "Id' st \<noteq> Id' (state cur) \<or> Sources st \<noteq> Sources (state cur) \<or> Where st \<noteq> Where (state cur)"
  then show "ApplyState E cur st = (Some ErrStateMismatch, cur)"
    by (auto simp: ApplyState_def)
next
  assume "Id' st = Id' (state cur) \<and> Sources st = Sources (state cur) \<and> Where st = Where (state cur)"
    and "Pos st = Pos (state cur)"
  then show "ApplyState E cur st = (None, cur)"
    by (simp add: ApplyState_def)
next
  assume g: "Id' st = Id' (state cur) \<and> Sources st = Sources (state cur) \<and> Where st = Where (state cur)"
    and d: "Pos st \<noteq> Pos (state cur)"
  let ?cur1 = "cur\<lparr>state := (state cur)\<lparr>Pos := Pos st\<rparr>\<rparr>"
  have st: "(state cur)\<lparr>Pos := Pos st\<rparr> = st"
    using g by simp
  show "case parseVals E (Split (Pos st) cPosJrnlSplit) [] of
            Inl err \<Rightarrow> ApplyState E cur st = (Some (Wrapf err), cur)
          | Inr m \<Rightarrow>
              (\<exists>cur'. ApplyState E cur st = (None, cur') \<and> state cur' = st \<and> it cur' = it cur \<and>
                 map fst (jDescs cur') = map fst (jDescs cur) \<and>
                 (\<forall>jn jd. map_of (jDescs cur) jn = Some jd \<longrightarrow>
                    map_of (jDescs cur') jn =
                      Some (case map_of m jn of
                              None \<Rightarrow> jd
                            | Some p \<Rightarrow> jd\<lparr>jit := SetPos (jit jd) p\<rparr>)))"
  proof (cases "parseVals E (Split (Pos st) cPosJrnlSplit) []")
    case (Inl err)
    then have "applyStatePos E ?cur1 = Inl err"
      by (simp add: applyStatePos_def)
    then have "ApplyState E cur st = (Some (Wrapf err), cur)"
      using g d by (simp add: ApplyState_def)
    with Inl show ?thesis by simp
  next
    case (Inr m)
    then have dm: "distinct (map fst m)"
      using parseVals_distinct by fastforce
    from Inr have "applyStatePos E ?cur1 = Inr (?cur1\<lparr>jDescs := seekAll m (jDescs cur)\<rparr>)"
      by (simp add: applyStatePos_def)
    then have "ApplyState E cur st = (None, ?cur1\<lparr>jDescs := seekAll m (jDescs cur)\<rparr>)"
      using g d by (simp add: ApplyState_def)
    then show ?thesis
      using Inr st by (simp add: seekAll_keys seekAll_map_of [OF dm])
  qed
qed

theorem ApplyState_guarded_transactional_witness:
  "ApplyState (stdEnv []) curOne ((state curOne)\<lparr>Sources := ''name=b''\<rparr>) = (Some ErrStateMismatch, curOne) \<and>
   ApplyState (stdEnv []) curOne (state curOne) = (None, curOne) \<and>
   ApplyState (stdEnv []) curOne ((state curOne)\<lparr>Pos := ''j1=0000000000000005.00000003:j1''\<rparr>)
     = (Some (Wrapf ErrParse), curOne) \<and>
   (\<exists>cur'. ApplyState (stdEnv []) curTwo ((state curTwo)\<lparr>Pos := ''j2=0000000000000005.00000003''\<rparr>)
              = (None, cur') \<and>
            Pos (state cur') = ''j2=0000000000000005.00000003'' \<and>
            map fst (jDescs cur') = map fst (jDescs curTwo) \<and>
            map_of (jDescs cur') ''j1'' = Some (snd (mkDesc ''name=a'' ''j1'' 1 2 True)) \<and>
            map_of (jDescs cur') ''j2'' = Some (snd (mkDesc ''name=b'' ''j2'' 5 3 False)))"
proof -
  let ?E = "stdEnv [] :: string env"
  let ?s1 = "(state curOne)\<lparr>Sources := ''name=b''\<rparr>"
  let ?s3 = "(state curOne)\<lparr>Pos := ''j1=0000000000000005.00000003:j1''\<rparr>"
  let ?s4 = "(state curTwo)\<lparr>Pos := ''j2=0000000000000005.00000003''\<rparr>"
  have g1: "Sources ?s1 \<noteq> Sources (state curOne)"
    by (simp add: curOne_def)
  have a: "ApplyState ?E curOne ?s1 = (Some ErrStateMismatch, curOne)"
    using ApplyState_guarded_transactional [of ?s1 curOne ?E] g1 by blast
  have b: "ApplyState ?E curOne (state curOne) = (None, curOne)"
    using ApplyState_guarded_transactional [of "state curOne" curOne ?E] by blast
  have p3: "parseVals ?E (Split (Pos ?s3) cPosJrnlSplit) [] = Inl ErrParse"
    by code_simp
  have d3: "Pos ?s3 \<noteq> Pos (state curOne)"
    by (simp add: curOne_def)
  have c: "ApplyState ?E curOne ?s3 = (Some (Wrapf ErrParse), curOne)"
    using ApplyState_guarded_transactional [of ?s3 curOne ?E] p3 d3 by simp
  have p4: "parseVals ?E (Split (Pos ?s4) cPosJrnlSplit) [] = Inr [(''j2'', \<lparr>CId = 5, Idx = 3\<rparr>)]"
    by code_simp
  have d4: "Pos ?s4 \<noteq> Pos (state curTwo)"
    by (simp add: curTwo_def)
  have m1: "map_of (jDescs curTwo) ''j1'' = Some (snd (mkDesc ''name=a'' ''j1'' 1 2 True))"
    by (simp add: curTwo_def mkDesc_def)
  have m2: "map_of (jDescs curTwo) ''j2'' = Some (snd (mkDesc ''name=b'' ''j2'' 3 4 False))"
    by (simp add: curTwo_def mkDesc_def)
  have u: "(snd (mkDesc ''name=b'' ''j2'' 3 4 False))
             \<lparr>jit := SetPos (jit (snd (mkDesc ''name=b'' ''j2'' 3 4 False))) \<lparr>CId = 5, Idx = 3\<rparr>\<rparr>
           = snd (mkDesc ''name=b'' ''j2'' 5 3 False)"
    by (simp add: mkDesc_def SetPos_def)
  have "\<exists>cur'. ApplyState ?E curTwo ?s4 = (None, cur') \<and> state cur' = ?s4 \<and> it cur' = it curTwo \<and>
                 map fst (jDescs cur') = map fst (jDescs curTwo) \<and>
                 (\<forall>jn jd. map_of (jDescs curTwo) jn = Some jd \<longrightarrow>
                    map_of (jDescs cur') jn =
                      Some (case map_of [(''j2'', \<lparr>CId = 5, Idx = 3\<rparr>)] jn of
                              None \<Rightarrow> jd
                            | Some p \<Rightarrow> jd\<lparr>jit := SetPos (jit jd) p\<rparr>))"
    using ApplyState_guarded_transactional [of ?s4 curTwo ?E] p4 d4 by simp
  then obtain cur' where r: "ApplyState ?E curTwo ?s4 = (None, cur')" "state cur' = ?s4"
      "map fst (jDescs cur') = map fst (jDescs curTwo)"
      and f: "\<And>jn jd. map_of (jDescs curTwo) jn = Some jd \<Longrightarrow>
                    map_of (jDescs cur') jn =
                      Some (case map_of [(''j2'', \<lparr>CId = 5, Idx = 3\<rparr>)] jn of
                              None \<Rightarrow> jd
                            | Some p \<Rightarrow> jd\<lparr>jit := SetPos (jit jd) p\<rparr>)"
    by blast
  have "map_of (jDescs cur') ''j1'' = Some (snd (mkDesc ''name=a'' ''j1'' 1 2 True))"
    using f [OF m1] by simp
  moreover have "map_of (jDescs cur') ''j2'' = Some (snd (mkDesc ''name=b'' ''j2'' 5 3 False))"
    using f [OF m2] u by simp
  moreover have "Pos (state cur') = ''j2=0000000000000005.00000003''"
    using r(2) by simp
  ultimately have d: "\<exists>cur'. ApplyState ?E curTwo ?s4 = (None, cur') \<and>
            Pos (state cur') = ''j2=0000000000000005.00000003'' \<and>
            map fst (jDescs cur') = map fst (jDescs curTwo) \<and>
            map_of (jDescs cur') ''j1'' = Some (snd (mkDesc ''name=a'' ''j1'' 1 2 True)) \<and>
            map_of (jDescs cur') ''j2'' = Some (snd (mkDesc ''name=b'' ''j2'' 5 3 False))"
    using r by blast
  from a b c d show ?thesis by blast
qed

text \<open>C3 as stated fails: with a state that passes the guard, \<^verbatim>\<open>ApplyState\<close> does not
  always seek the iterators to the positions of the new \<open>Pos\<close>. The cursor \<open>curOne\<close> stores the
  \<open>Pos\<close> "j1=0000000000000001.00000002" while the iterator of j1 has moved on to (9, 9);
  applying the cursor's own state returns no error and leaves the iterator at (9, 9), not at
  the position (1, 2) that \<open>Pos\<close> names.\<close>

theorem ApplyState_same_Pos_counterexample:
  "fst (ApplyState (stdEnv []) curOne (state curOne)) = None \<and>
   Pos (state curOne) = ''j1=0000000000000001.00000002'' \<and>
   ParsePos (stdEnv []) ''0000000000000001.00000002'' = Inr \<lparr>CId = 1, Idx = 2\<rparr> \<and>
   map_of (jDescs (snd (ApplyState (stdEnv []) curOne (state curOne)))) ''j1''
     = Some (snd (mkDesc ''name=a'' ''j1'' 9 9 True)) \<and>
   ipos (jit (snd (mkDesc ''name=a'' ''j1'' 9 9 True))) \<noteq> \<lparr>CId = 1, Idx = 2\<rparr>"
  by code_simp

subsection \<open>Per-journal position maps\<close>

text \<open>C6 (as amended): when a position string that parses to the map \<open>m\<close> (whose keys are the
  journal ids written before "=" in the entries of the string) is applied by
  \<^verbatim>\<open>applyStatePos\<close>, the cursor keeps its journals, so entries for journals the cursor does
  not have are ignored; the iterator of a journal of the cursor that the string names is set
  to the position given for it; and a journal of the cursor that the string does not name
  keeps its descriptor unchanged: its iterator stays at the position it had, it is not moved
  to the head.\<close>

theorem applyStatePos_unknown_ignored_missing_kept:
  assumes "parseVals E (Split (Pos (state cur)) cPosJrnlSplit) [] = Inr m"
  shows "\<exists>c. applyStatePos E cur = Inr c \<and> state c = state cur \<and> it c = it cur \<and>
           map fst (jDescs c) = map fst (jDescs cur) \<and>
           fst ` set m = (\<lambda>v. Split v cPosJrnlVal ! 0) ` set (Split (Pos (state cur)) cPosJrnlSplit) \<and>
           (\<forall>jn jd. map_of (jDescs cur) jn = Some jd \<and> jn \<notin> fst ` set m \<longrightarrow>
              map_of (jDescs c) jn = Some jd) \<and>
           (\<forall>jn jd p. map_of (jDescs cur) jn = Some jd \<and> map_of m jn = Some p \<longrightarrow>
              map_of (jDescs c) jn = Some (jd\<lparr>jit := SetPos (jit jd) p\<rparr>))"
proof -
  have dm: "distinct (map fst m)"
    using parseVals_distinct [OF assms] by simp
  have c: "applyStatePos E cur = Inr (cur\<lparr>jDescs := seekAll m (jDescs cur)\<rparr>)"
    using assms by (simp add: applyStatePos_def)
  have k: "fst ` set m = (\<lambda>v. Split v cPosJrnlVal ! 0) ` set (Split (Pos (state cur)) cPosJrnlSplit)"
    using parseVals_keys [OF assms] by simp
  have n: "\<And>jn. jn \<notin> fst ` set m \<Longrightarrow> map_of m jn = None"
    by (simp add: map_of_eq_None_iff)
  have a: "\<forall>jn jd. map_of (jDescs cur) jn = Some jd \<and> jn \<notin> fst ` set m \<longrightarrow>
              map_of (seekAll m (jDescs cur)) jn = Some jd"
    using n by (simp add: seekAll_map_of [OF dm])
  have b: "\<forall>jn jd p. map_of (jDescs cur) jn = Some jd \<and> map_of m jn = Some p \<longrightarrow>
              map_of (seekAll m (jDescs cur)) jn = Some (jd\<lparr>jit := SetPos (jit jd) p\<rparr>)"
    by (simp add: seekAll_map_of [OF dm])
  show ?thesis
    using c k a b by (simp add: seekAll_keys)
qed

theorem applyStatePos_unknown_ignored_missing_kept_witness:
  "\<exists>c. applyStatePos (stdEnv [])
          (curTwo\<lparr>state := (state curTwo)
             \<lparr>Pos := ''j1=0000000000000005.00000003:zz=0000000000000007.00000001''\<rparr>\<rparr>) = Inr c \<and>
        map fst (jDescs c) = map fst (jDescs curTwo) \<and>
        map_of (jDescs c) ''j2'' = Some (snd (mkDesc ''name=b'' ''j2'' 3 4 False)) \<and>
        map_of (jDescs c) ''j1'' = Some (snd (mkDesc ''name=a'' ''j1'' 5 3 True))"
proof -
  let ?E = "stdEnv [] :: string env"
  let ?c = "curTwo\<lparr>state := (state curTwo)
             \<lparr>Pos := ''j1=0000000000000005.00000003:zz=0000000000000007.00000001''\<rparr>\<rparr>"
  let ?m = "[(''j1'', \<lparr>CId = 5, Idx = 3\<rparr>), (''zz'', \<lparr>CId = 7, Idx = 1\<rparr>)]"
  have h: "parseVals ?E (Split (Pos (state ?c)) cPosJrnlSplit) [] = Inr ?m"
    by code_simp
  have m1: "map_of (jDescs ?c) ''j1'' = Some (snd (mkDesc ''name=a'' ''j1'' 1 2 True)) \<and>
            map_of ?m ''j1'' = Some \<lparr>CId = 5, Idx = 3\<rparr>"
    by (simp add: curTwo_def mkDesc_def)
  have m2: "map_of (jDescs ?c) ''j2'' = Some (snd (mkDesc ''name=b'' ''j2'' 3 4 False)) \<and>
            ''j2'' \<notin> fst ` set ?m"
    by (simp add: curTwo_def mkDesc_def)
  have u: "(snd (mkDesc ''name=a'' ''j1'' 1 2 True))
             \<lparr>jit := SetPos (jit (snd (mkDesc ''name=a'' ''j1'' 1 2 True))) \<lparr>CId = 5, Idx = 3\<rparr>\<rparr>
           = snd (mkDesc ''name=a'' ''j1'' 5 3 True)"
    by (simp add: mkDesc_def SetPos_def)
  obtain c where r: "applyStatePos ?E ?c = Inr c" "map fst (jDescs c) = map fst (jDescs ?c)"
    and a: "\<forall>jn jd. map_of (jDescs ?c) jn = Some jd \<and> jn \<notin> fst ` set ?m \<longrightarrow>
              map_of (jDescs c) jn = Some jd"
    and b: "\<forall>jn jd p. map_of (jDescs ?c) jn = Some jd \<and> map_of ?m jn = Some p \<longrightarrow>
              map_of (jDescs c) jn = Some (jd\<lparr>jit := SetPos (jit jd) p\<rparr>)"
    using applyStatePos_unknown_ignored_missing_kept [OF h] by blast
  have "map_of (jDescs c) ''j2'' = Some (snd (mkDesc ''name=b'' ''j2'' 3 4 False))"
    using a m2 by blast
  moreover have "map_of (jDescs c) ''j1'' = Some (snd (mkDesc ''name=a'' ''j1'' 5 3 True))"
    using b m1 u by metis
  moreover have "map fst (jDescs c) = map fst (jDescs curTwo)"
    using r(2) by simp
  ultimately show ?thesis
    using r(1) by blast
qed

text \<open>C6 as stated fails: \<open>curTwo\<close> has the journals j1 at (1, 2) and j2 at (3, 4); applying
  the string "j1=0000000000000005.00000003", which does not mention j2, moves j1 to (5, 3)
  and leaves j2 at (3, 4), which is not the head (0, 0).\<close>

theorem applyStatePos_missing_not_head_counterexample:
  "applyStatePos (stdEnv [])
     (curTwo\<lparr>state := (state curTwo)\<lparr>Pos := ''j1=0000000000000005.00000003''\<rparr>\<rparr>) =
   Inr (curTwo\<lparr>state := (state curTwo)\<lparr>Pos := ''j1=0000000000000005.00000003''\<rparr>,
               jDescs := [mkDesc ''name=a'' ''j1'' 5 3 True, mkDesc ''name=b'' ''j2'' 3 4 False]\<rparr>) \<and>
   ipos (jit (snd (mkDesc ''name=b'' ''j2'' 3 4 False))) \<noteq> headPos"
  by code_simp

subsection \<open>Construction and commit\<close>

text \<open>C4: when the sources expression parses and the tag index answers with an empty set of
  journals, \<^verbatim>\<open>newCursor\<close> returns the error for "no sources"; when it answers with more
  than 50 journals, \<^verbatim>\<open>newCursor\<close> returns the error for "too many sources". In both cases the
  result is an error, so no cursor is returned.\<close>

theorem newCursor_source_count:
  assumes "ParseExpr E (Sources st) = Inr se"
    and "GetJournals E se (cMaxSources + 1) = Inr srcs"
  shows "(srcs = [] \<longrightarrow> newCursor E st = Inl ErrNoSources) \<and>
         (50 < length srcs \<longrightarrow> newCursor E st = Inl ErrTooManySources)"
  using assms by (auto simp: newCursor_def cMaxSources_def)

theorem newCursor_source_count_witness:
  "newCursor (stdEnv []) (state curOne) = Inl ErrNoSources \<and>
   newCursor (stdEnv manySources) (state curOne) = Inl ErrTooManySources"
proof -
  let ?st = "state curOne"
  have p: "ParseExpr (stdEnv srcs) (Sources ?st) = Inr (Sources ?st)" for srcs
    by (simp add: stdEnv_def)
  have g0: "GetJournals (stdEnv []) (Sources ?st) (cMaxSources + 1) = Inr []"
    by (simp add: stdEnv_def)
  have g1: "GetJournals (stdEnv manySources) (Sources ?st) (cMaxSources + 1)
              = Inr (take 51 manySources)"
    by (simp add: stdEnv_def cMaxSources_def)
  have l: "50 < length (take 51 manySources)"
    by (simp add: manySources_def)
  show ?thesis
    using newCursor_source_count [OF p g0] newCursor_source_count [OF p g1] l by simp
qed

lemma collectPosLoop_fst:
  "fst (collectPosLoop E jds first buf) = map (\<lambda>e. (fst e, (snd e)\<lparr>jit := Release (jit (snd e))\<rparr>)) jds"
proof (induction jds arbitrary: first buf)
  case Nil
  then show ?case by simp
next
  case (Cons e jds)
  obtain jn jd where e: "e = (jn, jd)" by (cases e)
  have step: "fst (collectPosLoop E (e # jds) first buf) =
      (jn, jd\<lparr>jit := Release (jit jd)\<rparr>) # fst (collectPosLoop E jds False
             ((if \<not> first then buf @ [cPosJrnlSplit] else buf)
                @ jn @ [cPosJrnlVal] @ PosString E (ipos (jit jd))))"
    using e by (simp split: prod.splits)
  show ?case
    unfolding step Cons.IH using e by simp
qed

lemma collectPosLoop_snd:
  "snd (collectPosLoop E jds first buf) =
     (if jds = [] then buf
      else buf @ (if first then [] else [cPosJrnlSplit]) @ joinPos (map (posEntry E) jds))"
proof (induction jds arbitrary: first buf)
  case Nil
  then show ?case by simp
next
  case (Cons e jds)
  obtain jn jd where e: "e = (jn, jd)" by (cases e)
  have step: "snd (collectPosLoop E (e # jds) first buf) =
      snd (collectPosLoop E jds False
             ((if \<not> first then buf @ [cPosJrnlSplit] else buf)
                @ jn @ [cPosJrnlVal] @ PosString E (ipos (jit jd))))"
    using e by (simp split: prod.splits)
  show ?case
    unfolding step Cons.IH
    by (cases jds) (simp_all add: posEntry_def e)
qed

lemma collectPos_eq:
  "collectPos E cur =
     (joinPos (map (posEntry E) (jDescs cur)),
      cur\<lparr>jDescs := map (\<lambda>e. (fst e, (snd e)\<lparr>jit := Release (jit (snd e))\<rparr>)) (jDescs cur)\<rparr>)"
proof -
  obtain jds out where r: "collectPosLoop E (jDescs cur) True [] = (jds, out)"
    by (cases "collectPosLoop E (jDescs cur) True []")
  have "jds = map (\<lambda>e. (fst e, (snd e)\<lparr>jit := Release (jit (snd e))\<rparr>)) (jDescs cur)"
    using collectPosLoop_fst [of E "jDescs cur" True "[]"] r by simp
  moreover have "out = joinPos (map (posEntry E) (jDescs cur))"
    using collectPosLoop_snd [of E "jDescs cur" True "[]"] r by simp
  ultimately show ?thesis
    using r by (simp add: collectPos_def)
qed

text \<open>C7: \<^verbatim>\<open>commit\<close> first performs one \<^verbatim>\<open>Get\<close> on the cursor, then writes the position of
  every journal iterator, as that \<^verbatim>\<open>Get\<close> left it, into the \<open>Pos\<close> of the state it returns
  (the entries "journalId=pos" joined by ":"), and releases every journal iterator: after
  \<^verbatim>\<open>commit\<close> no journal iterator of the cursor holds a reader, and releasing has not moved
  any position. The other fields of the state are unchanged and the cursor stores the state
  returned.\<close>

theorem commit_get_collect_release:
  "fst (commit E cur) = (state cur)\<lparr>Pos := joinPos (map (posEntry E) (jDescs (Get E cur)))\<rparr> \<and>
   state (snd (commit E cur)) = fst (commit E cur) \<and>
   it (snd (commit E cur)) = it cur \<and>
   map fst (jDescs (snd (commit E cur))) = map fst (jDescs (Get E cur)) \<and>
   map (\<lambda>e. ipos (jit (snd e))) (jDescs (snd (commit E cur)))
     = map (\<lambda>e. ipos (jit (snd e))) (jDescs (Get E cur)) \<and>
   (\<forall>e \<in> set (jDescs (snd (commit E cur))). \<not> rdr (jit (snd e)))"
  by (auto simp: commit_def collectPos_eq Let_def Get_def Release_def comp_def)

theorem commit_get_collect_release_witness:
  "fst (commit (stdEnv []) curTwo)
     = (state curTwo)\<lparr>Pos := ''j1=0000000000000001.00000002:j2=0000000000000003.00000004''\<rparr> \<and>
   map (\<lambda>e. rdr (jit (snd e))) (jDescs (Get (stdEnv []) curTwo)) = [True, True] \<and>
   map (\<lambda>e. rdr (jit (snd e))) (jDescs (snd (commit (stdEnv []) curTwo))) = [False, False]"
proof -
  let ?E = "stdEnv [] :: string env"
  have j: "joinPos (map (posEntry ?E) (jDescs (Get ?E curTwo)))
             = ''j1=0000000000000001.00000002:j2=0000000000000003.00000004''"
    by code_simp
  have g: "map (\<lambda>e. rdr (jit (snd e))) (jDescs (Get ?E curTwo)) = [True, True]"
    by (simp add: Get_def stdEnv_def curTwo_def mkDesc_def)
  have k: "map fst (jDescs (Get ?E curTwo)) = [''j1'', ''j2'']"
    by (simp add: Get_def stdEnv_def curTwo_def mkDesc_def)
  have r: "map fst (jDescs (snd (commit ?E curTwo))) = [''j1'', ''j2'']"
    and n: "\<forall>e \<in> set (jDescs (snd (commit ?E curTwo))). \<not> rdr (jit (snd e))"
    and f: "fst (commit ?E curTwo) = (state curTwo)\<lparr>Pos := joinPos (map (posEntry ?E) (jDescs (Get ?E curTwo)))\<rparr>"
    using commit_get_collect_release [of ?E curTwo] k by simp_all
  obtain e1 e2 where l: "jDescs (snd (commit ?E curTwo)) = [e1, e2]"
    using r by (auto simp: map_eq_Cons_conv)
  have "map (\<lambda>e. rdr (jit (snd e))) (jDescs (snd (commit ?E curTwo))) = [False, False]"
    using n l by simp
  then show ?thesis
    using f j g by simp
qed

subsection \<open>Position round trip\<close>












section \<open>Properties of the merged iterator\<close>

subsection \<open>The mixer\<close>














subsection \<open>The tournament of newCursor\<close>


















section \<open>Properties of the file-descriptor pool\<close>

subsection \<open>Reader selection\<close>

lemma nearestFree_snoc_busy:
  "nearestFree offset pre i \<Longrightarrow> \<not> isFree fr \<Longrightarrow> nearestFree offset (pre @ [fr]) i"
  by (auto simp: nearestFree_def nth_append less_Suc_eq)

lemma nearestFree_snoc_farther:
  "nearestFree offset pre i \<Longrightarrow> \<not> distance fr offset < distance (pre ! i) offset \<Longrightarrow>
   nearestFree offset (pre @ [fr]) i"
  by (auto simp: nearestFree_def nth_append less_Suc_eq)

lemma nearestFree_snoc_nearer:
  "nearestFree offset pre i \<Longrightarrow> isFree fr \<Longrightarrow> distance fr offset < distance (pre ! i) offset \<Longrightarrow>
   nearestFree offset (pre @ [fr]) (length pre)"
  by (fastforce simp: nearestFree_def nth_append less_Suc_eq)

lemma nearestFree_snoc_first:
  "\<forall>x \<in> set pre. \<not> isFree x \<Longrightarrow> isFree fr \<Longrightarrow> nearestFree offset (pre @ [fr]) (length pre)"
  by (auto simp: nearestFree_def nth_append less_Suc_eq)

lemma getFreeLoop_inv:
  assumes "getFreeLoop offset rest idx ridx dist = (r', d')"
    and "idx = length pre"
    and "(ridx < 0 \<and> (\<forall>x \<in> set pre. \<not> isFree x)) \<or>
         (0 \<le> ridx \<and> nearestFree offset pre (nat ridx) \<and> dist = distance (pre ! nat ridx) offset)"
  shows "(r' < 0 \<and> (\<forall>x \<in> set (pre @ rest). \<not> isFree x)) \<or>
         (0 \<le> r' \<and> nearestFree offset (pre @ rest) (nat r') \<and>
          d' = distance ((pre @ rest) ! nat r') offset)"
  using assms
proof (induction rest arbitrary: pre idx ridx dist)
  case Nil
  then show ?case by simp
next
  case (Cons fr rest)
  let ?pre = "pre @ [fr]"
  have idx: "idx + 1 = length ?pre"
    using Cons.prems(2) by simp
  have nth: "?pre ! length pre = fr"
    by simp
  have keep: "?pre ! i = pre ! i" if "i < length pre" for i
    using that by (simp add: nth_append)
  show ?case
  proof (cases "isFree fr")
    case False
    then have run: "getFreeLoop offset rest (idx + 1) ridx dist = (r', d')"
      using Cons.prems(1) by simp
    have inv: "(ridx < 0 \<and> (\<forall>x \<in> set ?pre. \<not> isFree x)) \<or>
         (0 \<le> ridx \<and> nearestFree offset ?pre (nat ridx) \<and> dist = distance (?pre ! nat ridx) offset)"
      using Cons.prems(3) False nearestFree_snoc_busy [of offset pre "nat ridx" fr]
      by (auto simp: nearestFree_def nth_append)
    show ?thesis
      using Cons.IH [OF run idx inv] by simp
  next
    case True
    show ?thesis
    proof (cases "ridx < 0")
      case neg: True
      then have run: "getFreeLoop offset rest (idx + 1) (int idx) (distance fr offset) = (r', d')"
        using Cons.prems(1) True by simp
      have "\<forall>x \<in> set pre. \<not> isFree x"
        using Cons.prems(3) neg by auto
      then have "nearestFree offset ?pre (length pre)"
        using True by (rule nearestFree_snoc_first)
      then have inv: "(int idx < 0 \<and> (\<forall>x \<in> set ?pre. \<not> isFree x)) \<or>
         (0 \<le> int idx \<and> nearestFree offset ?pre (nat (int idx)) \<and>
          distance fr offset = distance (?pre ! nat (int idx)) offset)"
        using Cons.prems(2) by simp
      show ?thesis
        using Cons.IH [OF run idx inv] by simp
    next
      case nonneg: False
      then have nf: "nearestFree offset pre (nat ridx)" and d: "dist = distance (pre ! nat ridx) offset"
        using Cons.prems(3) by auto
      have lt: "nat ridx < length pre"
        using nf by (simp add: nearestFree_def)
      show ?thesis
      proof (cases "distance fr offset < dist")
        case nearer: True
        then have run: "getFreeLoop offset rest (idx + 1) (int idx) (distance fr offset) = (r', d')"
          using Cons.prems(1) True nonneg by simp
        have "nearestFree offset ?pre (length pre)"
          using nf True nearer d by (simp add: nearestFree_snoc_nearer)
        then have inv: "(int idx < 0 \<and> (\<forall>x \<in> set ?pre. \<not> isFree x)) \<or>
           (0 \<le> int idx \<and> nearestFree offset ?pre (nat (int idx)) \<and>
            distance fr offset = distance (?pre ! nat (int idx)) offset)"
          using Cons.prems(2) by simp
        show ?thesis
          using Cons.IH [OF run idx inv] by simp
      next
        case farther: False
        then have run: "getFreeLoop offset rest (idx + 1) ridx dist = (r', d')"
          using Cons.prems(1) True nonneg by simp
        have "nearestFree offset ?pre (nat ridx)"
          using nf farther d by (simp add: nearestFree_snoc_farther)
        then have inv: "(ridx < 0 \<and> (\<forall>x \<in> set ?pre. \<not> isFree x)) \<or>
           (0 \<le> ridx \<and> nearestFree offset ?pre (nat ridx) \<and> dist = distance (?pre ! nat ridx) offset)"
          using nonneg d keep [OF lt] by simp
        show ?thesis
          using Cons.IH [OF run idx inv] by simp
      qed
    qed
  qed
qed

lemma getFree_cases:
  "(getFree frp offset = (None, frp) \<and> (\<forall>x \<in> set (rdrs frp). \<not> isFree x)) \<or>
   (\<exists>i. nearestFree offset (rdrs frp) i \<and>
        getFree frp offset =
          (Some (makeBusy (rdrs frp ! i)), frp\<lparr>rdrs := (rdrs frp)[i := makeBusy (rdrs frp ! i)]\<rparr>))"
proof -
  obtain r' d' where run: "getFreeLoop offset (rdrs frp) 0 (- 1) (- 1) = (r', d')"
    by (cases "getFreeLoop offset (rdrs frp) 0 (- 1) (- 1)")
  have "(r' < 0 \<and> (\<forall>x \<in> set ([] @ rdrs frp). \<not> isFree x)) \<or>
         (0 \<le> r' \<and> nearestFree offset ([] @ rdrs frp) (nat r') \<and>
          d' = distance (([] @ rdrs frp) ! nat r') offset)"
    by (rule getFreeLoop_inv [OF run]) simp_all
  then show ?thesis
    using run by (auto simp: getFree_def)
qed

lemma freeSem_frame [simp]:
  "closed (freeSem fdp cnt) = closed fdp" "maxSize (freeSem fdp cnt) = maxSize fdp"
  "frs (freeSem fdp cnt) = frs fdp" "waiters (freeSem fdp cnt) = waiters fdp"
  "nextRid (freeSem fdp cnt) = nextRid fdp" "curSize (freeSem fdp cnt) = curSize fdp"
  by (simp_all add: freeSem_def)

lemma cleanLoop_frame:
  "closed (cleanLoop all todo fdp) = closed fdp \<and> maxSize (cleanLoop all todo fdp) = maxSize fdp \<and>
   waiters (cleanLoop all todo fdp) = waiters fdp \<and> nextRid (cleanLoop all todo fdp) = nextRid fdp"
proof (induction todo arbitrary: fdp)
  case Nil
  then show ?case by simp
next
  case (Cons e todo)
  obtain nm frp where e: "e = (nm, frp)" by (cases e)
  obtain frp' cnt where c: "cleanUp frp all = (frp', cnt)" by (cases "cleanUp frp all")
  let ?f = "(freeSem (fdp\<lparr>curSize := int32 (curSize fdp - int32 (int cnt))\<rparr>) cnt)
               \<lparr>frs := (if all then delPool nm (frs fdp) else putPool nm frp' (frs fdp))\<rparr>"
  have "cleanLoop all (e # todo) fdp = cleanLoop all todo ?f"
    by (simp add: e c)
  then show ?case
    using Cons.IH [of ?f] by simp
qed

lemma clean_frame [simp]:
  "closed (clean fdp all) = closed fdp" "maxSize (clean fdp all) = maxSize fdp"
  "waiters (clean fdp all) = waiters fdp" "nextRid (clean fdp all) = nextRid fdp"
  using cleanLoop_frame [of all "frs fdp" fdp] by (simp_all add: clean_def)

lemma acquireLocked_free:
  assumes "\<not> closed fdp" and "map_of (frs fdp) c = Some frp"
    and "nearestFree offset (rdrs frp) i"
    and "getFree frp offset =
          (Some (makeBusy (rdrs frp ! i)), frp\<lparr>rdrs := (rdrs frp)[i := makeBusy (rdrs frp ! i)]\<rparr>)"
  shows "acquire fdp ctxDone openOk c offset =
          (Reader (makeBusy (rdrs frp ! i)),
           fdp\<lparr>frs := putPool c (frp\<lparr>rdrs := (rdrs frp)[i := makeBusy (rdrs frp ! i)]\<rparr>) (frs fdp)\<rparr>)"
  using assms by (simp add: acquire_def acquireLocked_def)

lemma acquireLocked_none:
  assumes "\<not> closed fdp" and "map_of (frs fdp) c = Some frp"
    and "getFree frp offset = (None, frp)"
  shows "fst (acquireLocked fdp c offset) = Waiting"
    and "nextRid (snd (acquireLocked fdp c offset)) = nextRid fdp"
    and "waiters (snd (acquireLocked fdp c offset)) \<noteq> []"
  using assms by (simp_all add: acquireLocked_def Let_def)

lemma createAndUseFreader_sem: "sem (snd (createAndUseFreader fdp openOk c fn)) = sem fdp"
  by (simp add: createAndUseFreader_def Let_def split: option.splits)

lemma acquireSelect_created:
  assumes "nextRid (snd (acquireSelect fdp i ctxDone openOk)) \<noteq> nextRid fdp"
  shows "sem (snd (acquireSelect fdp i ctxDone openOk)) + 1 = sem fdp"
proof -
  let ?w = "waiters fdp ! i"
  let ?f = "fdp\<lparr>waiters := removeAt i (waiters fdp), sem := sem fdp - 1\<rparr>"
  have i: "i < length (waiters fdp)" and nc: "\<not> ctxDone" and s: "sem fdp > 0"
    using assms by (auto simp: acquireSelect_def Let_def split: if_splits)
  have "snd (acquireSelect fdp i ctxDone openOk) = snd (createAndUseFreader ?f openOk (fst ?w) (snd ?w))"
    using i nc s by (simp add: acquireSelect_def Let_def split: prod.splits sum.splits)
  then have "sem (snd (acquireSelect fdp i ctxDone openOk)) = sem ?f"
    by (simp add: createAndUseFreader_sem)
  then show ?thesis
    using s by simp
qed

text \<open>C8: for an \<^verbatim>\<open>acquire\<close> on a registered client id of an open pool. If the pool of the
  client id holds a free reader, the call returns, made busy, a free reader whose distance
  to \<open>offset\<close> is minimal among the free readers, the first such reader in the list, and
  nothing else changes: no permit is taken and no reader is constructed. If the call
  constructs a reader (it then draws the next reader identity), no reader of that pool was
  free, and the construction has consumed one permit of the semaphore. The distance is what
  \<^verbatim>\<open>fr.distance(offset)\<close> returns; the proof does not look at how it is computed.\<close>

theorem acquire_nearest_free_reader:
  assumes "\<not> closed fdp" and "map_of (frs fdp) c = Some frp"
  shows "((\<exists>fr \<in> set (rdrs frp). isFree fr) \<longrightarrow>
            (\<exists>i. nearestFree offset (rdrs frp) i \<and>
                 acquire fdp ctxDone openOk c offset =
                   (Reader (makeBusy (rdrs frp ! i)),
                    fdp\<lparr>frs := putPool c (frp\<lparr>rdrs := (rdrs frp)[i := makeBusy (rdrs frp ! i)]\<rparr>)
                                (frs fdp)\<rparr>))) \<and>
         (nextRid (snd (acquire fdp ctxDone openOk c offset)) \<noteq> nextRid fdp \<longrightarrow>
            (\<forall>fr \<in> set (rdrs frp). \<not> isFree fr) \<and>
            sem (snd (acquire fdp ctxDone openOk c offset)) + 1 = sem (snd (acquireLocked fdp c offset)))"
proof (cases "\<forall>x \<in> set (rdrs frp). \<not> isFree x")
  case True
  then have g: "getFree frp offset = (None, frp)"
    using getFree_cases [of frp offset] by (auto simp: nearestFree_def)
  let ?f1 = "snd (acquireLocked fdp c offset)"
  have w: "fst (acquireLocked fdp c offset) = Waiting" and n: "nextRid ?f1 = nextRid fdp"
    using acquireLocked_none [OF assms g] by simp_all
  have a: "acquire fdp ctxDone openOk c offset = acquireSelect ?f1 (length (waiters ?f1) - 1) ctxDone openOk"
    using w by (cases "acquireLocked fdp c offset") (simp add: acquire_def)
  show ?thesis
    using True a n acquireSelect_created [of ?f1 "length (waiters ?f1) - 1" ctxDone openOk]
    by auto
next
  case False
  then obtain i where nf: "nearestFree offset (rdrs frp) i"
    and g: "getFree frp offset =
          (Some (makeBusy (rdrs frp ! i)), frp\<lparr>rdrs := (rdrs frp)[i := makeBusy (rdrs frp ! i)]\<rparr>)"
    using getFree_cases [of frp offset] by auto
  have a: "acquire fdp ctxDone openOk c offset =
          (Reader (makeBusy (rdrs frp ! i)),
           fdp\<lparr>frs := putPool c (frp\<lparr>rdrs := (rdrs frp)[i := makeBusy (rdrs frp ! i)]\<rparr>) (frs fdp)\<rparr>)"
    using acquireLocked_free [OF assms nf g] .
  show ?thesis
    using nf a by auto
qed

theorem acquire_nearest_free_reader_witness:
  "(\<exists>i. nearestFree 100 (rdrs frpEx) i \<and>
        acquire fdpEx False True 7 100 =
          (Reader (makeBusy (rdrs frpEx ! i)),
           fdpEx\<lparr>frs := putPool 7 (frpEx\<lparr>rdrs := (rdrs frpEx)[i := makeBusy (rdrs frpEx ! i)]\<rparr>)
                          (frs fdpEx)\<rparr>)) \<and>
   fst (acquire fdpEx False True 7 100) = Reader (mkReader 2 90 frBusy) \<and>
   nextRid (snd (acquire fdpBusy False True 7 100)) = 2 \<and>
   sem (snd (acquire fdpBusy False True 7 100)) + 1 = sem (snd (acquireLocked fdpBusy 7 100))"
proof -
  have c: "\<not> closed fdpEx" and m: "map_of (frs fdpEx) 7 = Some frpEx"
    by (simp_all add: fdpEx_def)
  have "isFree (mkReader 1 50 frFree)"
    by (simp add: isFree_def mkReader_def)
  then have f: "\<exists>fr \<in> set (rdrs frpEx). isFree fr"
    by (simp add: frpEx_def)
  have a: "\<exists>i. nearestFree 100 (rdrs frpEx) i \<and>
        acquire fdpEx False True 7 100 =
          (Reader (makeBusy (rdrs frpEx ! i)),
           fdpEx\<lparr>frs := putPool 7 (frpEx\<lparr>rdrs := (rdrs frpEx)[i := makeBusy (rdrs frpEx ! i)]\<rparr>)
                          (frs fdpEx)\<rparr>)"
    using acquire_nearest_free_reader [OF c m, of 100 False True] f by blast
  have b: "fst (acquire fdpEx False True 7 100) = Reader (mkReader 2 90 frBusy)"
    by code_simp
  have c2: "\<not> closed fdpBusy"
    and m2: "map_of (frs fdpBusy) 7 = Some \<lparr>fname = ''chunk7'', rdrs = [mkReader 0 100 frBusy]\<rparr>"
    by (simp_all add: fdpBusy_def)
  have n: "nextRid (snd (acquire fdpBusy False True 7 100)) = 2"
    by code_simp
  have n': "nextRid (snd (acquire fdpBusy False True 7 100)) \<noteq> nextRid fdpBusy"
    unfolding n by (simp add: fdpBusy_def)
  have d: "sem (snd (acquire fdpBusy False True 7 100)) + 1 = sem (snd (acquireLocked fdpBusy 7 100))"
    using acquire_nearest_free_reader [OF c2 m2, of 100 False True] n' by blast
  show ?thesis
    by (intro conjI a b n d)
qed

subsection \<open>Capacity\<close>



lemma putPool_keys [simp]: "map fst (putPool c frp ps) = map fst ps"
  by (induction ps) (auto simp: putPool_def)















lemma mapReader_keys [simp]: "map fst (mapReader r f ps) = map fst ps"
  by (induction ps) (auto simp: mapReader_def)

lemma mapReader_total [simp]:
  "length (concat (map (\<lambda>e. rdrs (snd e)) (mapReader r f ps))) = length (concat (map (\<lambda>e. rdrs (snd e)) ps))"
  by (induction ps) (auto simp: mapReader_def)

















end
